theory Spec2Isabelle
  imports Main "HOL-Library.Multiset"
begin

section \<open>hcpsdk.ips: name resolution and the round-robin address pool\<close>

text \<open>
  A shallow embedding of \<^verbatim>\<open>src/hcpsdk/ips/__init__.py\<close>: the function \<^verbatim>\<open>query\<close>,
  the class \<^verbatim>\<open>response\<close> and the class \<^verbatim>\<open>Circle\<close>.

  Python strings are modelled as \<open>string\<close>, with a \<open>char\<close> standing for a code point
  below 256. Exceptions are values of the type \<open>exn\<close>; a call that raises returns
  \<open>Inl\<close>. A call that never returns (an endless loop, or a wait for a lock that nobody
  releases) has the value \<open>None\<close>.
\<close>

subsection \<open>Exceptions\<close>

datatype exn =
    IpsError string  \<comment> \<open>\<^verbatim>\<open>IpsError(reason)\<close>\<close>
  | TypeError        \<comment> \<open>\<^verbatim>\<open>next(None)\<close>\<close>
  | StopIteration    \<comment> \<open>\<^verbatim>\<open>next\<close> of a generator that has finished\<close>
  | IndexError       \<comment> \<open>\<^verbatim>\<open>ip[1]\<close> out of range\<close>
  | ValueError       \<comment> \<open>\<^verbatim>\<open>int(s, 16)\<close> on an invalid literal\<close>

subsection \<open>The two resolvers the module calls\<close>

text \<open>
  The exceptions of \<^verbatim>\<open>dns.resolver.query\<close> that \<^verbatim>\<open>query\<close> tells apart; any other
  \<^verbatim>\<open>Exception\<close> is \<open>OtherException\<close> with its \<^verbatim>\<open>str(e)\<close>.
\<close>

datatype dns_error =
    NXDOMAIN | YXDOMAIN | Timeout | NoAnswer | NoNameservers
  | NotAbsolute | NoRootSOA | NoMetaqueries
  | OtherException string

text \<open>
  An entry of \<^verbatim>\<open>socket.getaddrinfo\<close>'s result is the 5-tuple
  \<^verbatim>\<open>(family, type, proto, canonname, sockaddr)\<close> with \<^verbatim>\<open>sockaddr = (address, port)\<close>.
\<close>

type_synonym sockaddr = "string \<times> int"
type_synonym addrinfo = "int \<times> int \<times> int \<times> string \<times> sockaddr"

text \<open>
  The state of the name service at the moment of a call.
  \<open>getaddrinfo host port\<close> is \<^verbatim>\<open>socket.getaddrinfo(host, port, family=AF_INET,
  type=SOCK_DGRAM)\<close>: \<open>Inl msg\<close> when it raises an \<^verbatim>\<open>Exception\<close> \<open>e\<close> with
  \<^verbatim>\<open>str(e) = msg\<close>, \<open>Inr\<close> of the list it returns otherwise.
  \<open>dns_resolver_query name\<close> is \<^verbatim>\<open>dns.resolver.query(name, raise_on_no_answer=True)\<close>:
  \<open>Inl\<close> of the exception, or \<open>Inr\<close> of the records of \<^verbatim>\<open>ips.rrset\<close>, each given by
  its string form \<^verbatim>\<open>str(i)\<close>.
\<close>

record resolvers =
  getaddrinfo :: "string \<Rightarrow> int \<Rightarrow> string + addrinfo list"
  dns_resolver_query :: "string \<Rightarrow> dns_error + string list"

subsection \<open>Python's \<^verbatim>\<open>int(s, 16)\<close> and \<^verbatim>\<open>'{}'.format(n)\<close>\<close>

definition is_space :: "char \<Rightarrow> bool" where
  "is_space c \<longleftrightarrow>
     c \<in> set [CHR 0x09, CHR 0x0A, CHR 0x0B, CHR 0x0C, CHR 0x0D, CHR 0x20, CHR 0x85, CHR 0xA0]"

definition hex_digit :: "char \<Rightarrow> nat option" where
  "hex_digit c =
     (if c \<in> set ''0123456789'' then Some (of_char c - 48)
      else if c \<in> set ''abcdef'' then Some (of_char c - 87)
      else if c \<in> set ''ABCDEF'' then Some (of_char c - 55)
      else None)"

text \<open>
  The digits after the first one: a single underscore may stand between two digits.
\<close>

fun hex_run :: "nat \<Rightarrow> string \<Rightarrow> nat option" where
  "hex_run acc [] = Some acc"
| "hex_run acc (c # cs) =
     (if c = CHR ''_'' then
        (case cs of
           [] \<Rightarrow> None
         | d # ds \<Rightarrow>
             (case hex_digit d of None \<Rightarrow> None | Some v \<Rightarrow> hex_run (16 * acc + v) ds))
      else
        (case hex_digit c of None \<Rightarrow> None | Some v \<Rightarrow> hex_run (16 * acc + v) cs))"

definition parse_digits :: "string \<Rightarrow> nat option" where
  "parse_digits u =
     (case u of
        [] \<Rightarrow> None
      | c # cs \<Rightarrow> (case hex_digit c of None \<Rightarrow> None | Some v \<Rightarrow> hex_run v cs))"

definition strip :: "string \<Rightarrow> string" where
  "strip s = rev (dropWhile is_space (rev (dropWhile is_space s)))"

definition strip_sign :: "string \<Rightarrow> int \<times> string" where
  "strip_sign u =
     (case u of
        [] \<Rightarrow> (1, u)
      | c # r \<Rightarrow> if c = CHR ''+'' then (1, r) else if c = CHR ''-'' then (- 1, r) else (1, u))"

definition strip_prefix :: "string \<Rightarrow> string" where
  "strip_prefix u =
     (case u of
        z # x # r \<Rightarrow>
          if z = CHR ''0'' \<and> (x = CHR ''x'' \<or> x = CHR ''X'')
          then (case r of [] \<Rightarrow> r | c # r' \<Rightarrow> if c = CHR ''_'' then r' else r)
          else u
      | _ \<Rightarrow> u)"

text \<open>
  \<^verbatim>\<open>int(s, 16)\<close>: white space around the literal, an optional sign, an optional
  \<^verbatim>\<open>0x\<close> prefix, then hexadecimal digits; \<^verbatim>\<open>ValueError\<close> on anything else.
\<close>

definition py_int16 :: "string \<Rightarrow> exn + int" where
  "py_int16 s =
     (case strip_sign (strip s) of
        (sg, u) \<Rightarrow>
          (case parse_digits (strip_prefix u) of
             None \<Rightarrow> Inl ValueError
           | Some n \<Rightarrow> Inr (sg * int n)))"

fun str_nat :: "nat \<Rightarrow> string" where
  "str_nat n =
     (if n < 10 then [''0123456789'' ! n]
      else str_nat (n div 10) @ [''0123456789'' ! (n mod 10)])"

declare str_nat.simps [simp del]

definition str_int :: "int \<Rightarrow> string" where
  "str_int i = (if i < 0 then CHR ''-'' # str_nat (nat (- i)) else str_nat (nat i))"

text \<open>\<^verbatim>\<open>'{}.{}.{}.{}'.format(a, b, c, d)\<close>\<close>

definition format4 :: "int \<Rightarrow> int \<Rightarrow> int \<Rightarrow> int \<Rightarrow> string" where
  "format4 a b c d = str_int a @ ''.'' @ str_int b @ ''.'' @ str_int c @ ''.'' @ str_int d"

subsection \<open>\<^verbatim>\<open>response\<close> and \<^verbatim>\<open>query\<close>\<close>

record response =
  fqdn :: string
  cache :: bool
  ips :: "string list"
  raised :: string

text \<open>
  The body of the loop over \<^verbatim>\<open>ips.rrset\<close>, up to the value that is appended:
  \<^verbatim>\<open>ip[1]\<close> raises on a string shorter than two characters, \<^verbatim>\<open>ip[-8:]\<close> is the
  last eight characters (the whole string when it is shorter), and the four
  \<^verbatim>\<open>int(.., 16)\<close> are evaluated from left to right.
\<close>

definition normalize_record :: "string \<Rightarrow> exn + string" where
  "normalize_record ip =
     (if length ip < 2 then Inl IndexError
      else if ip ! 1 = CHR ''#'' then
        (let hx = drop (length ip - 8) ip in
         (case py_int16 (take 2 hx) of Inl e \<Rightarrow> Inl e | Inr a \<Rightarrow>
         (case py_int16 (take 2 (drop 2 hx)) of Inl e \<Rightarrow> Inl e | Inr b \<Rightarrow>
         (case py_int16 (take 2 (drop 4 hx)) of Inl e \<Rightarrow> Inl e | Inr c \<Rightarrow>
         (case py_int16 (drop 6 hx) of Inl e \<Rightarrow> Inl e | Inr d \<Rightarrow>
            Inr (format4 a b c d))))))
      else Inr ip)"

text \<open>
  The loop \<^verbatim>\<open>for i in ips.rrset\<close>: the first exception leaves the loop and the
  function; otherwise every normalized record is appended.
\<close>

fun collect_ips :: "string list \<Rightarrow> string list \<Rightarrow> exn + string list" where
  "collect_ips acc [] = Inr acc"
| "collect_ips acc (i # rest) =
     (case normalize_record i of
        Inl e \<Rightarrow> Inl e
      | Inr ip \<Rightarrow> collect_ips (acc @ [ip]) rest)"

text \<open>The \<^verbatim>\<open>except\<close> clauses of the bypass path, in the order of the source.\<close>

fun dns_error_message :: "dns_error \<Rightarrow> string" where
  "dns_error_message NXDOMAIN = ''NXDOMAIN - The query name does not exist.''"
| "dns_error_message YXDOMAIN = ''The query name is too long after DNAME substitution.''"
| "dns_error_message Timeout = ''The operation timed out.''"
| "dns_error_message NoAnswer = ''The response did not contain an answer to the question.''"
| "dns_error_message NoNameservers =
     ''NoNameservers - No non-broken nameservers are available to answer the query.''"
| "dns_error_message NotAbsolute =
     ''Raised if an absolute domain name is required but a relative name was provided.''"
| "dns_error_message NoRootSOA =
     ''Raised if for some reason there is no SOA at the root name. This should never happen!''"
| "dns_error_message NoMetaqueries = ''Metaqueries are not allowed.''"
| "dns_error_message (OtherException msg) = msg"

text \<open>
  \<^verbatim>\<open>query(fqdn, cache)\<close>. With \<open>use_cache\<close> the system resolver is asked, always
  for port 443, and \<^verbatim>\<open>a[4][0]\<close> of every entry is appended. Without it the
  nameservers are asked directly. The loop over the records is in the \<^verbatim>\<open>else\<close>
  branch of the \<^verbatim>\<open>try\<close>, where no \<^verbatim>\<open>except\<close> clause applies.
\<close>

definition query :: "resolvers \<Rightarrow> string \<Rightarrow> bool \<Rightarrow> exn + response" where
  "query env name use_cache =
     (let response0 = \<lparr>fqdn = name, cache = use_cache, ips = [], raised = []\<rparr> in
      if use_cache then
        (case getaddrinfo env name 443 of
           Inl msg \<Rightarrow> Inr (response0\<lparr>raised := msg\<rparr>)
         | Inr ais \<Rightarrow> Inr (response0\<lparr>ips := map (\<lambda>a. fst (snd (snd (snd (snd a))))) ais\<rparr>))
      else
        (case dns_resolver_query env name of
           Inl e \<Rightarrow> Inr (response0\<lparr>raised := dns_error_message e\<rparr>)
         | Inr rrset \<Rightarrow>
             (case collect_ips [] rrset of
                Inl e \<Rightarrow> Inl e
              | Inr ips' \<Rightarrow>
                  if length ips' = 0 then Inr (response0\<lparr>ips := ips', raised := ''no response''\<rparr>)
                  else Inr (response0\<lparr>ips := ips'\<rparr>))))"

subsection \<open>\<^verbatim>\<open>Circle\<close>\<close>

text \<open>
  The generator object held in \<^verbatim>\<open>self.__generator\<close>: \<open>GenNone\<close> is \<^verbatim>\<open>None\<close>,
  \<open>GenCreated dnsname\<close> is \<^verbatim>\<open>__addr(dnsname)\<close> before its first \<^verbatim>\<open>next\<close> (the
  body has not run), \<open>GenSuspended i\<close> is the generator waiting at its \<^verbatim>\<open>yield\<close>
  with the list iterator of the \<^verbatim>\<open>for\<close> loop at index \<open>i\<close>, and \<open>GenFinished\<close> is
  the generator after an exception has left its body.
\<close>

datatype gen = GenNone | GenCreated string | GenSuspended nat | GenFinished

record circle =
  authority :: string
  port :: int
  cLock :: bool
  generator :: gen
  addresses :: "string list"

text \<open>
  The loop \<^verbatim>\<open>while True: for ipadr in self._addresses: yield str(ipadr)\<close>, from the
  head of the \<^verbatim>\<open>while\<close> to the next \<^verbatim>\<open>yield\<close>. Over an empty list the \<^verbatim>\<open>for\<close>
  loop ends at once and the \<^verbatim>\<open>while\<close> starts again.
\<close>

partial_function (option) addr_loop :: "circle \<Rightarrow> ((exn + string) \<times> circle) option" where
  "addr_loop self =
     (case addresses self of
        [] \<Rightarrow> addr_loop self
      | ipadr # _ \<Rightarrow> Some (Inr ipadr, self\<lparr>generator := GenSuspended 1\<rparr>))"

declare addr_loop.simps [code]

text \<open>
  The body of the generator \<^verbatim>\<open>__addr(dnsname)\<close> from its start to the first
  \<^verbatim>\<open>yield\<close>. The cached list is emptied before the query; an exception finishes the
  generator.
\<close>

definition addr_start ::
  "resolvers \<Rightarrow> string \<Rightarrow> circle \<Rightarrow> ((exn + string) \<times> circle) option" where
  "addr_start env dnsname self =
     (let self1 = self\<lparr>addresses := []\<rparr> in
      case query env dnsname True of
        Inl e \<Rightarrow> Some (Inl e, self1\<lparr>generator := GenFinished\<rparr>)
      | Inr result \<Rightarrow>
          if raised result \<noteq> [] then
            Some (Inl (IpsError (raised result)), self1\<lparr>generator := GenFinished\<rparr>)
          else addr_loop (self1\<lparr>addresses := ips result\<rparr>))"

text \<open>\<^verbatim>\<open>next(self.__generator)\<close>\<close>

definition gen_next :: "resolvers \<Rightarrow> circle \<Rightarrow> ((exn + string) \<times> circle) option" where
  "gen_next env self =
     (case generator self of
        GenNone \<Rightarrow> Some (Inl TypeError, self)
      | GenCreated dnsname \<Rightarrow> addr_start env dnsname self
      | GenSuspended i \<Rightarrow>
          if i < length (addresses self)
          then Some (Inr (addresses self ! i), self\<lparr>generator := GenSuspended (Suc i)\<rparr>)
          else addr_loop self
      | GenFinished \<Rightarrow> Some (Inl StopIteration, self))"

text \<open>
  \<^verbatim>\<open>Circle._addr(fqdn=None)\<close>. \<^verbatim>\<open>self._cLock.acquire()\<close> on a lock that is held
  waits; no code of the class releases a lock it finds held, so the call never
  returns. The lock is released only after \<^verbatim>\<open>next\<close> has returned a value: an
  exception leaves it held. \<^verbatim>\<open>if fqdn:\<close> holds for a non-empty string.
\<close>

definition addr ::
  "resolvers \<Rightarrow> string option \<Rightarrow> circle \<Rightarrow> ((exn + string) \<times> circle) option" where
  "addr env name self =
     (if cLock self then None
      else
        (let self1 = self\<lparr>cLock := True\<rparr>;
             self2 = (case name of
                        None \<Rightarrow> self1
                      | Some n \<Rightarrow> if n \<noteq> [] then self1\<lparr>generator := GenCreated n\<rparr> else self1)
         in case gen_next env self2 of
              None \<Rightarrow> None
            | Some (Inl e, self3) \<Rightarrow> Some (Inl e, self3)
            | Some (Inr myaddr, self3) \<Rightarrow> Some (Inr myaddr, self3\<lparr>cLock := False\<rparr>)))"

text \<open>
  \<^verbatim>\<open>Circle.__init__(fqdn, port)\<close>: the pool exists only when the initial
  \<^verbatim>\<open>self._addr(fqdn=self.__authority)\<close> returns; the address it returns is dropped.
\<close>

definition Circle_init :: "resolvers \<Rightarrow> string \<Rightarrow> int \<Rightarrow> (exn + circle) option" where
  "Circle_init env name p =
     (let self = \<lparr>authority = name, port = p, cLock = False,
                  generator = GenNone, addresses = []\<rparr>
      in case addr env (Some name) self of
           None \<Rightarrow> None
         | Some (Inl e, _) \<Rightarrow> Some (Inl e)
         | Some (Inr _, self') \<Rightarrow> Some (Inr self'))"

text \<open>\<^verbatim>\<open>Circle.refresh()\<close>: the address that \<^verbatim>\<open>_addr\<close> returns is dropped.\<close>

definition refresh :: "resolvers \<Rightarrow> circle \<Rightarrow> ((exn + unit) \<times> circle) option" where
  "refresh env self =
     (case addr env (Some (authority self)) self of
        None \<Rightarrow> None
      | Some (Inl e, self') \<Rightarrow> Some (Inl e, self')
      | Some (Inr _, self') \<Rightarrow> Some (Inr (), self'))"

text \<open>The call \<^verbatim>\<open>_addr()\<close> without a name, which serves the next address.\<close>

definition next_address :: "resolvers \<Rightarrow> circle \<Rightarrow> ((exn + string) \<times> circle) option" where
  "next_address env self = addr env None self"

text \<open>
  A caller that asks for \<open>n\<close> addresses in a row, and stops at the first call that
  raises or does not return.
\<close>

fun next_addresses :: "resolvers \<Rightarrow> nat \<Rightarrow> circle \<Rightarrow> (string list \<times> circle) option" where
  "next_addresses env 0 self = Some ([], self)"
| "next_addresses env (Suc n) self =
     (case next_address env self of
        Some (Inr a, self') \<Rightarrow>
          (case next_addresses env n self' of
             None \<Rightarrow> None
           | Some (as, self'') \<Rightarrow> Some (a # as, self''))
      | _ \<Rightarrow> None)"

subsection \<open>Pool states\<close>

text \<open>
  A pool that serves: the lock is free, the cached list is not empty and the
  generator waits at its \<^verbatim>\<open>yield\<close> with the iterator inside the list or at its end.
  \<open>cursor\<close> is the index of the iterator.
\<close>

definition populated :: "circle \<Rightarrow> bool" where
  "populated self \<longleftrightarrow>
     \<not> cLock self \<and> addresses self \<noteq> [] \<and>
     (case generator self of GenSuspended i \<Rightarrow> i \<le> length (addresses self) | _ \<Rightarrow> False)"

definition cursor :: "circle \<Rightarrow> nat" where
  "cursor self = (case generator self of GenSuspended i \<Rightarrow> i | _ \<Rightarrow> 0)"

text \<open>
  The pools that exist and have only seen calls that returned a value: a pool is
  built by a constructor that returned, and then used by calls of \<^verbatim>\<open>_addr()\<close> and
  \<^verbatim>\<open>refresh()\<close> that returned without an exception.
\<close>

inductive serving :: "circle \<Rightarrow> bool" where
  constructed: "Circle_init env name p = Some (Inr self) \<Longrightarrow> serving self"
| served: "serving self \<Longrightarrow> next_address env self = Some (Inr a, self') \<Longrightarrow> serving self'"
| refreshed: "serving self \<Longrightarrow> refresh env self = Some (Inr (), self') \<Longrightarrow> serving self'"

text \<open>
  The states a pool can be in: built by a constructor that returned, and then
  changed by any calls of \<^verbatim>\<open>_addr\<close> (with or without a name) that returned or
  raised.
\<close>

inductive pool_state :: "circle \<Rightarrow> bool" where
  built: "Circle_init env name p = Some (Inr self) \<Longrightarrow> pool_state self"
| called: "pool_state self \<Longrightarrow> addr env name self = Some (res, self') \<Longrightarrow> pool_state self'"

subsection \<open>The normalization in the words of the specification\<close>

text \<open>
  The specification has the last eight characters of an opaque record decoded as
  four consecutive two-digit hexadecimal octets and rendered as a dotted-decimal
  string. \<open>decode_hex_suffix\<close> follows these words; it is \<open>None\<close> when the last eight
  characters are not eight hexadecimal digits.
\<close>

definition hex_octet :: "string \<Rightarrow> nat option" where
  "hex_octet s =
     (case s of
        [a, b] \<Rightarrow>
          (case hex_digit a of
             None \<Rightarrow> None
           | Some va \<Rightarrow> (case hex_digit b of None \<Rightarrow> None | Some vb \<Rightarrow> Some (16 * va + vb)))
      | _ \<Rightarrow> None)"

definition dotted_decimal :: "nat \<Rightarrow> nat \<Rightarrow> nat \<Rightarrow> nat \<Rightarrow> string" where
  "dotted_decimal a b c d = str_nat a @ ''.'' @ str_nat b @ ''.'' @ str_nat c @ ''.'' @ str_nat d"

definition decode_hex_suffix :: "string \<Rightarrow> string option" where
  "decode_hex_suffix ip =
     (let hx = drop (length ip - 8) ip in
      case hex_octet (take 2 hx) of None \<Rightarrow> None | Some a \<Rightarrow>
     (case hex_octet (take 2 (drop 2 hx)) of None \<Rightarrow> None | Some b \<Rightarrow>
     (case hex_octet (take 2 (drop 4 hx)) of None \<Rightarrow> None | Some c \<Rightarrow>
     (case hex_octet (take 2 (drop 6 hx)) of None \<Rightarrow> None | Some d \<Rightarrow>
        Some (dotted_decimal a b c d)))))"

subsection \<open>Example name services and pools\<close>

text \<open>An entry for an IPv4 datagram socket: \<^verbatim>\<open>(AF_INET, SOCK_DGRAM, 17, '', (host, 443))\<close>.\<close>

definition example_addrinfo :: "string \<Rightarrow> addrinfo" where
  "example_addrinfo host = (2, 2, 17, [], (host, 443))"

text \<open>The system resolver knows three nodes; the nameservers do not know the name.\<close>

definition example_up :: resolvers where
  "example_up =
     \<lparr>getaddrinfo = (\<lambda>host p. Inr (map example_addrinfo [''10.0.0.1'', ''10.0.0.2'', ''10.0.0.3''])),
      dns_resolver_query = (\<lambda>name. Inl NXDOMAIN)\<rparr>"

text \<open>The cluster has moved to two other nodes.\<close>

definition example_moved :: resolvers where
  "example_moved =
     \<lparr>getaddrinfo = (\<lambda>host p. Inr (map example_addrinfo [''10.0.1.1'', ''10.0.1.2''])),
      dns_resolver_query = (\<lambda>name. Inl NXDOMAIN)\<rparr>"

text \<open>Both resolvers time out.\<close>

definition example_down :: resolvers where
  "example_down =
     \<lparr>getaddrinfo = (\<lambda>host p. Inl ''timed out''),
      dns_resolver_query = (\<lambda>name. Inl Timeout)\<rparr>"

text \<open>Both resolvers succeed with no record at all.\<close>

definition example_empty :: resolvers where
  "example_empty =
     \<lparr>getaddrinfo = (\<lambda>host p. Inr []),
      dns_resolver_query = (\<lambda>name. Inr [])\<rparr>"

text \<open>
  Both resolvers raise an exception whose message is the empty string, as
  \<^verbatim>\<open>str(MemoryError())\<close> is.
\<close>

definition example_silent :: resolvers where
  "example_silent =
     \<lparr>getaddrinfo = (\<lambda>host p. Inl []),
      dns_resolver_query = (\<lambda>name. Inl (OtherException []))\<rparr>"

text \<open>
  The nameservers answer with an opaque record \<^verbatim>\<open>\# 4 C0A80101\<close> and a typed record
  \<^verbatim>\<open>1.2.3.4\<close>.
\<close>

definition example_generic :: resolvers where
  "example_generic =
     \<lparr>getaddrinfo = (\<lambda>host p. Inl ''timed out''),
      dns_resolver_query = (\<lambda>name. Inr [CHR 0x5C # ''# 4 C0A80101'', ''1.2.3.4''])\<rparr>"

text \<open>The nameservers answer with an opaque record of two bytes, \<^verbatim>\<open>\# 2 c0a8\<close>.\<close>

definition example_short :: resolvers where
  "example_short =
     \<lparr>getaddrinfo = (\<lambda>host p. Inl ''timed out''),
      dns_resolver_query = (\<lambda>name. Inr [CHR 0x5C # ''# 2 c0a8''])\<rparr>"

text \<open>The pool that \<^verbatim>\<open>Circle('hcp.example', 443)\<close> builds over \<open>example_up\<close>.\<close>

definition example_pool :: circle where
  "example_pool =
     \<lparr>authority = ''hcp.example'', port = 443, cLock = False,
      generator = GenSuspended 1,
      addresses = [''10.0.0.1'', ''10.0.0.2'', ''10.0.0.3'']\<rparr>"

section \<open>Properties\<close>

subsection \<open>The generator loop\<close>

lemma addr_loop_Some_nonempty: "addr_loop self = Some y \<Longrightarrow> addresses self \<noteq> []"
  by (rule addr_loop.raw_induct [where P = "\<lambda>x y. addresses x \<noteq> []"])
     (auto split: list.splits)

lemma addr_loop_Nil: "addresses self = [] \<Longrightarrow> addr_loop self = None"
  using addr_loop_Some_nonempty [of self] by (cases "addr_loop self") auto

lemma addr_loop_Cons:
  "addresses self = a # as \<Longrightarrow>
     addr_loop self = Some (Inr a, self\<lparr>generator := GenSuspended 1\<rparr>)"
  by (subst addr_loop.simps) simp

subsection \<open>The system resolver path\<close>

lemma query_system:
  "query env name True =
     (case getaddrinfo env name 443 of
        Inl msg \<Rightarrow> Inr \<lparr>fqdn = name, cache = True, ips = [], raised = msg\<rparr>
      | Inr ais \<Rightarrow> Inr \<lparr>fqdn = name, cache = True,
                         ips = map (\<lambda>a. fst (snd (snd (snd (snd a))))) ais, raised = []\<rparr>)"
  by (simp add: query_def split: sum.splits)

lemma query_system_returns: "\<exists>r. query env name True = Inr r"
  by (simp add: query_system split: sum.splits)

subsection \<open>The bypass path\<close>

lemma query_bypass_failure:
  "dns_resolver_query env name = Inl e \<Longrightarrow>
     query env name False =
       Inr \<lparr>fqdn = name, cache = False, ips = [], raised = dns_error_message e\<rparr>"
  by (simp add: query_def)

lemma dns_error_message_empty: "dns_error_message e = [] \<Longrightarrow> e = OtherException []"
  by (cases e) simp_all

lemma collect_ips_all:
  "collect_ips acc rrset = Inr xs \<Longrightarrow>
     \<exists>ys. xs = acc @ ys \<and> list_all2 (\<lambda>i ip. normalize_record i = Inr ip) rrset ys"
proof (induction rrset arbitrary: acc)
  case Nil
  then show ?case by simp
next
  case (Cons i rest)
  from Cons.prems obtain ip where n: "normalize_record i = Inr ip"
    and c: "collect_ips (acc @ [ip]) rest = Inr xs"
    by (auto split: sum.splits)
  from Cons.IH [OF c] obtain ys where "xs = (acc @ [ip]) @ ys"
    and "list_all2 (\<lambda>i ip. normalize_record i = Inr ip) rest ys" by blast
  then show ?case using n by simp
qed

lemma query_bypass_success:
  assumes "dns_resolver_query env name = Inr rrset" and "query env name False = Inr result"
  shows "list_all2 (\<lambda>i ip. normalize_record i = Inr ip) rrset (ips result)"
    and "raised result = (if rrset = [] then ''no response'' else [])"
proof -
  from assms obtain xs where c: "collect_ips [] rrset = Inr xs"
    by (auto simp: query_def Let_def split: sum.splits)
  from collect_ips_all [OF c] have l: "list_all2 (\<lambda>i ip. normalize_record i = Inr ip) rrset xs"
    by simp
  then have len: "length rrset = length xs" by (rule list_all2_lengthD)
  from assms c have r: "ips result = xs"
    by (auto simp: query_def Let_def split: if_splits)
  show "list_all2 (\<lambda>i ip. normalize_record i = Inr ip) rrset (ips result)"
    using l r by simp
  show "raised result = (if rrset = [] then ''no response'' else [])"
    using assms c len by (auto simp: query_def Let_def split: if_splits)
qed

subsection \<open>Claim C3: \<^verbatim>\<open>query\<close> can raise\<close>

text \<open>
  Claim C3 says that \<^verbatim>\<open>query\<close> returns a result and never raises, for every
  outcome of the underlying DNS query. Every exception of the two resolver calls is
  indeed turned into a result (\<open>query_system_returns\<close>, \<open>query_bypass_failure\<close>), but
  the normalization of the records runs outside the \<^verbatim>\<open>try\<close>. When the nameservers
  answer with the opaque record \<^verbatim>\<open>\# 2 c0a8\<close>, its second character is \<^verbatim>\<open>#\<close>, its last
  eight characters are \<^verbatim>\<open># 2 c0a8\<close>, and \<^verbatim>\<open>int('# ', 16)\<close> raises \<^verbatim>\<open>ValueError\<close>, which
  leaves \<^verbatim>\<open>query\<close>.
\<close>

theorem C3_query_raises: "query example_short ''hcp.example'' False = Inl ValueError"
  by code_simp

subsection \<open>Addresses and failure description of a result\<close>

text \<open>
  A result never has both a non-empty address list and a failure description.
  It has neither only when the system resolver returned an empty list, or when the
  resolver that was asked raised an exception with an empty message.
\<close>

lemma query_result_cases:
  assumes "query env name use_cache = Inr r"
  shows "\<not> (ips r \<noteq> [] \<and> raised r \<noteq> []) \<and>
         (ips r = [] \<and> raised r = [] \<longrightarrow>
            (use_cache \<and> (getaddrinfo env name 443 = Inr [] \<or> getaddrinfo env name 443 = Inl []))
          \<or> (\<not> use_cache \<and> dns_resolver_query env name = Inl (OtherException [])))"
proof (cases use_cache)
  case True
  with assms show ?thesis
    by (auto simp: query_system split: sum.splits)
next
  case False
  show ?thesis
  proof (cases "dns_resolver_query env name")
    case (Inl e)
    with assms False show ?thesis
      using query_bypass_failure [OF Inl] dns_error_message_empty [of e] by auto
  next
    case (Inr rrset)
    from assms False have q: "query env name False = Inr r" by simp
    from query_bypass_success [OF Inr q] have
      l: "list_all2 (\<lambda>i ip. normalize_record i = Inr ip) rrset (ips r)" and
      m: "raised r = (if rrset = [] then ''no response'' else [])" by auto
    from l have "length rrset = length (ips r)" by (rule list_all2_lengthD)
    with m show ?thesis by (auto split: if_splits)
  qed
qed

subsection \<open>Claim C8: a result with neither addresses nor a failure description\<close>

text \<open>
  Claim C8 says that every result of \<^verbatim>\<open>query\<close>, on either path, has exactly one of
  a non-empty address list and a failure description, so that a result with an
  empty failure description carries at least one address. \<^verbatim>\<open>query\<close> means to signal
  every exception through \<^verbatim>\<open>raised\<close>, but it stores \<^verbatim>\<open>str(e)\<close> as it is. When the
  resolver raises an exception whose message is empty, the result has no address
  and an empty failure description, on the system resolver path and on the bypass
  path alike, and the caller takes it for a success.
\<close>

theorem C8_query_neither:
  "query example_silent ''hcp.example'' True =
     Inr \<lparr>fqdn = ''hcp.example'', cache = True, ips = [], raised = []\<rparr> \<and>
   query example_silent ''hcp.example'' False =
     Inr \<lparr>fqdn = ''hcp.example'', cache = False, ips = [], raised = []\<rparr>"
proof -
  have "dns_resolver_query example_silent ''hcp.example'' = Inl (OtherException [])"
    by (simp add: example_silent_def)
  from query_bypass_failure [OF this] show ?thesis
    by (simp add: query_system example_silent_def)
qed

subsection \<open>One call of \<^verbatim>\<open>_addr\<close>\<close>

lemma addr_locked: "cLock self \<Longrightarrow> addr env name self = None"
  by (simp add: addr_def)

lemma addr_empty_name: "addr env (Some []) self = addr env None self"
  by (simp add: addr_def)

lemma addr_named:
  assumes "\<not> cLock self" and "n \<noteq> []" and "query env n True = Inr result"
  shows "addr env (Some n) self =
           (if raised result \<noteq> [] then
              Some (Inl (IpsError (raised result)),
                    self\<lparr>cLock := True, generator := GenFinished, addresses := []\<rparr>)
            else
              (case ips result of
                 [] \<Rightarrow> None
               | a # as \<Rightarrow>
                   Some (Inr a, self\<lparr>generator := GenSuspended 1, addresses := ips result\<rparr>)))"
proof (cases "raised result \<noteq> []")
  case True
  then show ?thesis using assms
    by (simp add: addr_def gen_next_def addr_start_def)
next
  case False
  show ?thesis
  proof (cases "ips result")
    case Nil
    have "addr_loop (self\<lparr>cLock := True, generator := GenCreated n, addresses := []\<rparr>) = None"
      by (rule addr_loop_Nil) simp
    then show ?thesis using assms False Nil
      by (simp add: addr_def gen_next_def addr_start_def)
  next
    case (Cons a as)
    have "addr_loop (self\<lparr>cLock := True, generator := GenCreated n, addresses := a # as\<rparr>) =
            Some (Inr a, self\<lparr>cLock := True, generator := GenCreated n, addresses := a # as,
                             generator := GenSuspended 1\<rparr>)"
      by (rule addr_loop_Cons) simp
    then show ?thesis using assms False Cons
      by (simp add: addr_def gen_next_def addr_start_def)
  qed
qed

lemma addr_named_Inr:
  assumes "n \<noteq> []" and "addr env (Some n) self = Some (Inr a, self')"
  shows "\<exists>result. query env n True = Inr result \<and> raised result = [] \<and> ips result \<noteq> [] \<and>
           a = hd (ips result) \<and>
           self' = self\<lparr>generator := GenSuspended 1, addresses := ips result\<rparr> \<and> \<not> cLock self"
proof -
  from assms(2) have l: "\<not> cLock self" by (auto simp: addr_def)
  obtain result where q: "query env n True = Inr result"
    using query_system_returns by blast
  from assms(2) show ?thesis
    unfolding addr_named [OF l assms(1) q] using q l
    by (auto split: if_splits list.splits)
qed

lemma addr_named_Inl:
  assumes "n \<noteq> []" and "addr env (Some n) self = Some (Inl e, self')"
  shows "\<exists>result. query env n True = Inr result \<and> raised result \<noteq> [] \<and>
           e = IpsError (raised result) \<and>
           self' = self\<lparr>cLock := True, generator := GenFinished, addresses := []\<rparr> \<and> \<not> cLock self"
proof -
  from assms(2) have l: "\<not> cLock self" by (auto simp: addr_def)
  obtain result where q: "query env n True = Inr result"
    using query_system_returns by blast
  from assms(2) show ?thesis
    unfolding addr_named [OF l assms(1) q] using q l
    by (auto split: if_splits list.splits)
qed

lemma next_address_populated:
  assumes "populated self"
  shows "next_address env self =
           Some (Inr (addresses self ! (cursor self mod length (addresses self))),
                 self\<lparr>generator := GenSuspended (Suc (cursor self mod length (addresses self)))\<rparr>)"
proof -
  from assms obtain i where g: "generator self = GenSuspended i" and i: "i \<le> length (addresses self)"
    and l: "\<not> cLock self" and ne: "addresses self \<noteq> []"
    by (auto simp: populated_def split: gen.splits)
  show ?thesis
  proof (cases "i < length (addresses self)")
    case True
    then show ?thesis using g l
      by (simp add: next_address_def addr_def gen_next_def cursor_def)
  next
    case False
    with i have e: "i = length (addresses self)" by simp
    from ne obtain a as where c: "addresses self = a # as" by (cases "addresses self") auto
    have "addr_loop (self\<lparr>cLock := True\<rparr>) =
            Some (Inr a, self\<lparr>cLock := True, generator := GenSuspended 1\<rparr>)"
      using c by (simp add: addr_loop_Cons)
    then show ?thesis using g l e c
      by (simp add: next_address_def addr_def gen_next_def cursor_def)
  qed
qed

lemma populated_step:
  assumes "populated self"
  shows "populated (self\<lparr>generator := GenSuspended (Suc (cursor self mod length (addresses self)))\<rparr>)"
proof -
  from assms have "addresses self \<noteq> []" by (simp add: populated_def)
  then have "cursor self mod length (addresses self) < length (addresses self)" by simp
  then have "Suc (cursor self mod length (addresses self)) \<le> length (addresses self)"
    by (rule Suc_leI)
  then show ?thesis using assms by (simp add: populated_def)
qed

lemma populated_resolved:
  "\<not> cLock self \<Longrightarrow> xs \<noteq> [] \<Longrightarrow>
     populated (self\<lparr>generator := GenSuspended 1, addresses := xs\<rparr>)"
  by (cases xs) (simp_all add: populated_def)

subsection \<open>Construction and refresh\<close>

lemma Circle_init_Inr:
  assumes "Circle_init env name p = Some (Inr self)"
  shows "name \<noteq> [] \<and>
         (\<exists>result. query env name True = Inr result \<and> raised result = [] \<and> ips result \<noteq> [] \<and>
            self = \<lparr>authority = name, port = p, cLock = False,
                    generator = GenSuspended 1, addresses = ips result\<rparr>)"
proof -
  let ?s0 = "\<lparr>authority = name, port = p, cLock = False, generator = GenNone, addresses = []\<rparr>"
  have n: "name \<noteq> []"
  proof
    assume "name = []"
    then have "addr env (Some name) ?s0 = Some (Inl TypeError, ?s0\<lparr>cLock := True\<rparr>)"
      by (simp add: addr_def gen_next_def)
    with assms show False by (simp add: Circle_init_def)
  qed
  from assms obtain a where "addr env (Some name) ?s0 = Some (Inr a, self)"
    by (auto simp: Circle_init_def Let_def split: option.splits sum.splits)
  from addr_named_Inr [OF n this] show ?thesis using n by auto
qed

lemma refresh_Inr:
  assumes "authority self \<noteq> []" and "refresh env self = Some (Inr (), self')"
  shows "\<exists>result. query env (authority self) True = Inr result \<and> raised result = [] \<and>
           ips result \<noteq> [] \<and>
           self' = self\<lparr>generator := GenSuspended 1, addresses := ips result\<rparr> \<and> \<not> cLock self"
proof -
  from assms(2) obtain a where "addr env (Some (authority self)) self = Some (Inr a, self')"
    by (auto simp: refresh_def split: option.splits sum.splits)
  from addr_named_Inr [OF assms(1) this] show ?thesis by auto
qed

lemma example_pool_built: "Circle_init example_up ''hcp.example'' 443 = Some (Inr example_pool)"
proof -
  have "query example_up ''hcp.example'' True =
     Inr \<lparr>fqdn = ''hcp.example'', cache = True,
          ips = [''10.0.0.1'', ''10.0.0.2'', ''10.0.0.3''], raised = []\<rparr>"
    by (simp add: query_system example_up_def example_addrinfo_def)
  then show ?thesis
    by (simp add: Circle_init_def addr_named example_pool_def)
qed

lemma example_pool_populated: "populated example_pool"
  by (simp add: populated_def example_pool_def)

subsection \<open>Consecutive calls\<close>

lemma next_addresses_populated:
  "populated self \<Longrightarrow>
     \<exists>self'. next_addresses env n self =
                Some (map (\<lambda>k. addresses self ! ((cursor self + k) mod length (addresses self)))
                          [0..<n], self')
            \<and> populated self' \<and> addresses self' = addresses self
            \<and> authority self' = authority self \<and> port self' = port self"
proof (induction n arbitrary: self)
  case 0
  then show ?case by simp
next
  case (Suc n)
  let ?N = "length (addresses self)"
  let ?s1 = "self\<lparr>generator := GenSuspended (Suc (cursor self mod ?N))\<rparr>"
  have p1: "populated ?s1" using Suc.prems by (rule populated_step)
  have c1: "cursor ?s1 = Suc (cursor self mod ?N)" by (simp add: cursor_def)
  from Suc.IH [OF p1] obtain self' where
    r: "next_addresses env n ?s1 =
          Some (map (\<lambda>k. addresses self ! ((Suc (cursor self mod ?N) + k) mod ?N)) [0..<n], self')"
    and q: "populated self'" "addresses self' = addresses self"
           "authority self' = authority self" "port self' = port self"
    using c1 by auto
  have e: "Suc (cursor self mod ?N + k) mod ?N = Suc (cursor self + k) mod ?N" for k
    by (metis mod_Suc_eq mod_add_left_eq)
  have u: "[0..<Suc n] = 0 # map Suc [0..<n]"
    by (simp add: upt_conv_Cons map_Suc_upt del: upt_Suc)
  have "next_addresses env (Suc n) self =
          Some (addresses self ! (cursor self mod ?N) #
                map (\<lambda>k. addresses self ! ((cursor self + Suc k) mod ?N)) [0..<n], self')"
    using next_address_populated [OF Suc.prems, of env] r by (simp add: e)
  then show ?case using q by (simp only: u) (simp add: comp_def)
qed

lemma cycle_rotate:
  assumes "xs \<noteq> []"
  shows "map (\<lambda>k. xs ! ((c + k) mod length xs)) [0..<length xs] = rotate c xs"
  by (rule nth_equalityI) (simp_all add: nth_rotate)

lemma cycle_twice:
  assumes "xs \<noteq> []"
  shows "map (\<lambda>k. xs ! ((c + k) mod length xs)) [0..<2 * length xs] = rotate c xs @ rotate c xs"
proof -
  let ?N = "length xs"
  let ?f = "\<lambda>k. xs ! ((c + k) mod ?N)"
  have s: "[0..<2 * ?N] = [0..<?N] @ map (\<lambda>i. i + ?N) [0..<?N]"
    using upt_add_eq_append [of 0 ?N ?N] by (simp only: map_add_upt mult_2)
  have p: "?f (k + ?N) = ?f k" for k
    using mod_add_self2 [of "c + k" ?N] by (simp only: add.assoc)
  have "map ?f [0..<2 * ?N] = map ?f [0..<?N] @ map (\<lambda>k. ?f (k + ?N)) [0..<?N]"
    by (simp only: s map_append map_map comp_def)
  also have "\<dots> = map ?f [0..<?N] @ map ?f [0..<?N]"
    by (simp only: p)
  finally show ?thesis by (simp only: cycle_rotate [OF assms])
qed

lemma mset_rotate_eq: "mset (rotate n xs) = mset xs"
proof -
  let ?k = "n mod length xs"
  have "mset (rotate n xs) = mset (drop ?k xs) + mset (take ?k xs)"
    by (simp add: rotate_drop_take)
  also have "\<dots> = mset (take ?k xs @ drop ?k xs)"
    by (simp only: mset_append add.commute)
  also have "\<dots> = mset xs"
    by (simp only: append_take_drop_id)
  finally show ?thesis .
qed

subsection \<open>Claim C5: the round robin\<close>

text \<open>
  Claim C5: for every pool with a cached list of \<open>N\<close> addresses and no refresh in
  between, consecutive calls of \<^verbatim>\<open>_addr()\<close> visit every cached address once per
  cycle of \<open>N\<close> calls, in the order of the list, before they repeat; \<open>2N\<close> calls
  return every address twice, the second time only after every address has been
  returned once. The cycle starts at the position of the cursor: \<open>N\<close> calls return
  the list rotated by the cursor, which holds the same addresses as often as the
  list does, and \<open>2N\<close> calls return this rotated list twice in a row.
\<close>

theorem C5_round_robin:
  assumes "populated self"
  shows "\<exists>s1 s2.
           next_addresses env (length (addresses self)) self =
             Some (rotate (cursor self) (addresses self), s1) \<and>
           next_addresses env (2 * length (addresses self)) self =
             Some (rotate (cursor self) (addresses self) @ rotate (cursor self) (addresses self), s2) \<and>
           addresses s1 = addresses self \<and> addresses s2 = addresses self \<and>
           mset (rotate (cursor self) (addresses self)) = mset (addresses self)"
proof -
  from assms have ne: "addresses self \<noteq> []" by (simp add: populated_def)
  from next_addresses_populated [OF assms, of env "length (addresses self)"]
  obtain s1 where 1: "next_addresses env (length (addresses self)) self =
      Some (rotate (cursor self) (addresses self), s1)" and a1: "addresses s1 = addresses self"
    unfolding cycle_rotate [OF ne] by blast
  from next_addresses_populated [OF assms, of env "2 * length (addresses self)"]
  obtain s2 where 2: "next_addresses env (2 * length (addresses self)) self =
      Some (rotate (cursor self) (addresses self) @ rotate (cursor self) (addresses self), s2)"
    and a2: "addresses s2 = addresses self"
    unfolding cycle_twice [OF ne] by blast
  show ?thesis using 1 2 a1 a2 by (simp add: mset_rotate_eq)
qed

theorem C5_round_robin_witness:
  "populated example_pool \<and>
   (\<exists>s1 s2.
      next_addresses example_up 3 example_pool =
        Some ([''10.0.0.2'', ''10.0.0.3'', ''10.0.0.1''], s1) \<and>
      next_addresses example_up 6 example_pool =
        Some ([''10.0.0.2'', ''10.0.0.3'', ''10.0.0.1'', ''10.0.0.2'', ''10.0.0.3'', ''10.0.0.1''], s2))"
proof -
  have r: "rotate (cursor example_pool) (addresses example_pool) =
             [''10.0.0.2'', ''10.0.0.3'', ''10.0.0.1'']"
    by (simp add: example_pool_def cursor_def rotate1_def rotate_def)
  have l: "length (addresses example_pool) = 3" "2 * length (addresses example_pool) = 6"
    by (simp_all add: example_pool_def)
  from C5_round_robin [OF example_pool_populated, of example_up]
  show ?thesis unfolding r l using example_pool_populated by auto
qed

subsection \<open>Claim C4: the cycle after a refresh\<close>

text \<open>
  Claim C4 says that after a successful refresh the first call of \<^verbatim>\<open>_addr()\<close>
  returns the first address of the new list. The refresh itself takes the first
  address from the new generator and drops it: after the pool of three nodes is
  refreshed to the list \<^verbatim>\<open>10.0.1.1, 10.0.1.2\<close>, the next call returns \<^verbatim>\<open>10.0.1.2\<close>.
\<close>

theorem C4_counterexample:
  "refresh example_moved example_pool =
     Some (Inr (), \<lparr>authority = ''hcp.example'', port = 443, cLock = False,
                    generator = GenSuspended 1, addresses = [''10.0.1.1'', ''10.0.1.2'']\<rparr>) \<and>
   next_address example_moved
       \<lparr>authority = ''hcp.example'', port = 443, cLock = False,
        generator = GenSuspended 1, addresses = [''10.0.1.1'', ''10.0.1.2'']\<rparr> =
     Some (Inr ''10.0.1.2'',
           \<lparr>authority = ''hcp.example'', port = 443, cLock = False,
            generator = GenSuspended 2, addresses = [''10.0.1.1'', ''10.0.1.2'']\<rparr>)"
proof -
  have q: "query example_moved ''hcp.example'' True =
     Inr \<lparr>fqdn = ''hcp.example'', cache = True, ips = [''10.0.1.1'', ''10.0.1.2''], raised = []\<rparr>"
    by (simp add: query_system example_moved_def example_addrinfo_def)
  have 1: "refresh example_moved example_pool =
     Some (Inr (), \<lparr>authority = ''hcp.example'', port = 443, cLock = False,
                    generator = GenSuspended 1, addresses = [''10.0.1.1'', ''10.0.1.2'']\<rparr>)"
    using q by (simp add: refresh_def addr_named example_pool_def)
  have 2: "next_address example_moved
       \<lparr>authority = ''hcp.example'', port = 443, cLock = False,
        generator = GenSuspended 1, addresses = [''10.0.1.1'', ''10.0.1.2'']\<rparr> =
     Some (Inr ''10.0.1.2'',
           \<lparr>authority = ''hcp.example'', port = 443, cLock = False,
            generator = GenSuspended 2, addresses = [''10.0.1.1'', ''10.0.1.2'']\<rparr>)"
    by (simp add: next_address_def addr_def gen_next_def)
  show ?thesis using 1 2 by (rule conjI)
qed

text \<open>
  Claim C4, amended: after a successful refresh of a pool the cached list is the
  newly resolved list, and the round robin goes on behind its first address, which
  the refresh has taken: the \<open>k\<close>-th call of \<^verbatim>\<open>_addr()\<close> after the refresh
  (\<open>k = 1, 2, \<dots>\<close>) returns the address at index \<open>k mod N\<close> of the new list of \<open>N\<close>
  addresses. So the first call returns the second address (the only one when
  \<open>N = 1\<close>), and the first address comes last in the cycle.
\<close>

theorem C4_cycle_after_refresh:
  assumes "authority self \<noteq> []" and "refresh env self = Some (Inr (), self')"
  shows "\<exists>result. query env (authority self) True = Inr result \<and> raised result = [] \<and>
           ips result \<noteq> [] \<and> addresses self' = ips result \<and> cursor self' = 1 \<and>
           (\<forall>n. \<exists>self''. next_addresses env' n self' =
                   Some (map (\<lambda>k. ips result ! (Suc k mod length (ips result))) [0..<n], self''))"
proof -
  from refresh_Inr [OF assms] obtain result where
    q: "query env (authority self) True = Inr result" "raised result = []" "ips result \<noteq> []"
    and s: "self' = self\<lparr>generator := GenSuspended 1, addresses := ips result\<rparr>"
    and l: "\<not> cLock self" by blast
  have p: "populated self'" unfolding s using l q(3) by (rule populated_resolved)
  have c: "cursor self' = 1" and a: "addresses self' = ips result"
    by (simp_all add: s cursor_def)
  have "\<exists>self''. next_addresses env' n self' =
          Some (map (\<lambda>k. ips result ! (Suc k mod length (ips result))) [0..<n], self'')" for n
    using next_addresses_populated [OF p, of env' n] by (auto simp: c a)
  then show ?thesis using q c a by blast
qed

theorem C4_cycle_after_refresh_witness:
  "\<exists>self''. next_addresses example_up 3
       \<lparr>authority = ''hcp.example'', port = 443, cLock = False,
        generator = GenSuspended 1, addresses = [''10.0.1.1'', ''10.0.1.2'']\<rparr> =
     Some ([''10.0.1.2'', ''10.0.1.1'', ''10.0.1.2''], self'')"
proof -
  let ?s = "\<lparr>authority = ''hcp.example'', port = 443, cLock = False,
        generator = GenSuspended 1, addresses = [''10.0.1.1'', ''10.0.1.2'']\<rparr>"
  have q: "query example_moved ''hcp.example'' True =
     Inr \<lparr>fqdn = ''hcp.example'', cache = True, ips = [''10.0.1.1'', ''10.0.1.2''], raised = []\<rparr>"
    by (simp add: query_system example_moved_def example_addrinfo_def)
  have a: "authority example_pool \<noteq> []" by (simp add: example_pool_def)
  have r: "refresh example_moved example_pool = Some (Inr (), ?s)"
    using q by (simp add: refresh_def addr_named example_pool_def)
  have u: "[0..<3] = [0, 1, 2]" by (simp add: upt_conv_Cons)
  from C4_cycle_after_refresh [OF a r, of example_up] obtain result where
    "query example_moved (authority example_pool) True = Inr result" and
    n: "\<forall>n. \<exists>self''. next_addresses example_up n ?s =
           Some (map (\<lambda>k. ips result ! (Suc k mod length (ips result))) [0..<n], self'')"
    by blast
  with q have i: "ips result = [''10.0.1.1'', ''10.0.1.2'']" by (auto simp: example_pool_def)
  from n obtain self'' where "next_addresses example_up 3 ?s =
     Some (map (\<lambda>k. ips result ! (Suc k mod length (ips result))) [0..<3], self'')" by blast
  moreover have "(3::nat) mod Suc (Suc 0) = 1" by presburger
  ultimately show ?thesis unfolding i u by simp
qed

subsection \<open>Claim C2: a refresh that fails\<close>

text \<open>
  Claim C2 says that a refresh whose resolution fails raises the error and leaves
  the cached list and the cursor as they were, so that the next call of
  \<^verbatim>\<open>_addr()\<close> serves from the old list. The error is raised, but the generator has
  been replaced and the list emptied before the query: after the failed refresh
  of the pool of three nodes the list is empty and the generator has finished.
\<close>

theorem C2_counterexample:
  "addresses example_pool = [''10.0.0.1'', ''10.0.0.2'', ''10.0.0.3''] \<and>
   generator example_pool = GenSuspended 1 \<and>
   refresh example_down example_pool =
     Some (Inl (IpsError ''timed out''),
           \<lparr>authority = ''hcp.example'', port = 443, cLock = True,
            generator = GenFinished, addresses = []\<rparr>)"
proof -
  have q: "query example_down ''hcp.example'' True =
     Inr \<lparr>fqdn = ''hcp.example'', cache = True, ips = [], raised = ''timed out''\<rparr>"
    by (simp add: query_system example_down_def)
  show ?thesis using q by (simp add: refresh_def addr_named example_pool_def)
qed

text \<open>
  Claim C2, amended: when the resolution of a refresh fails, the failure
  description is raised to the caller as an \<^verbatim>\<open>IpsError\<close>, and the pool is left with
  an empty address list and a finished generator: the list and the cursor it had
  before are gone. Name and port are unchanged.
\<close>

theorem C2_failed_refresh:
  assumes "\<not> cLock self" and "authority self \<noteq> []"
    and "query env (authority self) True = Inr result" and "raised result \<noteq> []"
  shows "\<exists>self'. refresh env self = Some (Inl (IpsError (raised result)), self') \<and>
           addresses self' = [] \<and> generator self' = GenFinished \<and>
           authority self' = authority self \<and> port self' = port self"
  using assms by (simp add: refresh_def addr_named)

theorem C2_failed_refresh_witness:
  "\<not> cLock example_pool \<and> authority example_pool \<noteq> [] \<and>
   (\<exists>self'. refresh example_down example_pool = Some (Inl (IpsError ''timed out''), self') \<and>
      addresses self' = [] \<and> generator self' = GenFinished)"
proof -
  have l: "\<not> cLock example_pool" and a: "authority example_pool \<noteq> []"
    by (simp_all add: example_pool_def)
  have q: "query example_down (authority example_pool) True =
     Inr \<lparr>fqdn = ''hcp.example'', cache = True, ips = [], raised = ''timed out''\<rparr>"
    by (simp add: query_system example_down_def example_pool_def)
  have r: "raised \<lparr>fqdn = ''hcp.example'', cache = True, ips = [], raised = ''timed out''\<rparr> \<noteq> []"
    by simp
  from C2_failed_refresh [OF l a q r] show ?thesis using l a by auto
qed

subsection \<open>Claim C7: \<^verbatim>\<open>_addr()\<close> on a pool that exists\<close>

lemma serving_populated: "serving self \<Longrightarrow> populated self \<and> authority self \<noteq> []"
proof (induction rule: serving.induct)
  case (constructed env name p self)
  from Circle_init_Inr [OF this] obtain result :: response where "name \<noteq> []" "ips result \<noteq> []"
    and s: "self = \<lparr>authority = name, port = p, cLock = False,
                    generator = GenSuspended 1, addresses = ips result\<rparr>" by auto
  then show ?case by (cases "ips result") (simp_all add: populated_def)
next
  case (served self env a self')
  then have p: "populated self" and n: "authority self \<noteq> []" by simp_all
  from served.hyps(2) have
    "self' = self\<lparr>generator := GenSuspended (Suc (cursor self mod length (addresses self)))\<rparr>"
    unfolding next_address_populated [OF p] by simp
  then show ?case using populated_step [OF p] n by simp
next
  case (refreshed self env self')
  then have n: "authority self \<noteq> []" by simp
  from refresh_Inr [OF n refreshed.hyps(2)] obtain result :: response where "ips result \<noteq> []"
    and s: "self' = self\<lparr>generator := GenSuspended 1, addresses := ips result\<rparr>"
    and l: "\<not> cLock self" by blast
  then show ?case using n populated_resolved [of self "ips result"] by simp
qed

text \<open>
  Claim C7 says that on a pool that was built every later call of \<^verbatim>\<open>_addr()\<close>
  returns an address, whatever happened in between, also a refresh that failed.
  After the failed refresh of the pool of three nodes the generator has finished,
  so \<^verbatim>\<open>next\<close> would raise \<^verbatim>\<open>StopIteration\<close>; and the lock that the failed call took
  is still held, so the call waits for it and does not return.
\<close>

theorem C7_counterexample:
  "Circle_init example_up ''hcp.example'' 443 = Some (Inr example_pool) \<and>
   refresh example_down example_pool =
     Some (Inl (IpsError ''timed out''), example_pool\<lparr>cLock := True, generator := GenFinished,
                                                   addresses := []\<rparr>) \<and>
   next_address example_up
     (example_pool\<lparr>cLock := True, generator := GenFinished, addresses := []\<rparr>) = None \<and>
   gen_next example_up
     (example_pool\<lparr>cLock := True, generator := GenFinished, addresses := []\<rparr>) =
     Some (Inl StopIteration,
           example_pool\<lparr>cLock := True, generator := GenFinished, addresses := []\<rparr>)"
proof -
  have q: "query example_down ''hcp.example'' True =
     Inr \<lparr>fqdn = ''hcp.example'', cache = True, ips = [], raised = ''timed out''\<rparr>"
    by (simp add: query_system example_down_def)
  have 1: "refresh example_down example_pool =
     Some (Inl (IpsError ''timed out''), example_pool\<lparr>cLock := True, generator := GenFinished,
                                                   addresses := []\<rparr>)"
    using q by (simp add: refresh_def addr_named example_pool_def)
  have 2: "next_address example_up
     (example_pool\<lparr>cLock := True, generator := GenFinished, addresses := []\<rparr>) = None"
    by (simp add: next_address_def addr_def)
  have 3: "gen_next example_up
     (example_pool\<lparr>cLock := True, generator := GenFinished, addresses := []\<rparr>) =
     Some (Inl StopIteration,
           example_pool\<lparr>cLock := True, generator := GenFinished, addresses := []\<rparr>)"
    by (simp add: gen_next_def)
  show ?thesis using example_pool_built 1 2 3 by simp
qed

text \<open>
  Claim C7, amended: on a pool that was built, every call of \<^verbatim>\<open>_addr()\<close> returns an
  address of the cached list and does not fail, as long as every call of
  \<^verbatim>\<open>refresh()\<close> in between has returned without an error.
\<close>

theorem C7_next_address_returns:
  assumes "serving self"
  shows "\<exists>a self'. next_address env self = Some (Inr a, self') \<and> a \<in> set (addresses self) \<and>
           serving self'"
proof -
  from serving_populated [OF assms] have p: "populated self" by simp
  then have "addresses self \<noteq> []" by (simp add: populated_def)
  then have "addresses self ! (cursor self mod length (addresses self)) \<in> set (addresses self)"
    by simp
  moreover from next_address_populated [OF p, of env] assms
  have "serving (self\<lparr>generator := GenSuspended (Suc (cursor self mod length (addresses self)))\<rparr>)"
    by (rule served [rotated])
  ultimately show ?thesis using next_address_populated [OF p, of env] by blast
qed

theorem C7_next_address_returns_witness:
  "serving example_pool \<and>
   (\<exists>a self'. next_address example_down example_pool = Some (Inr a, self') \<and>
      a \<in> set [''10.0.0.1'', ''10.0.0.2'', ''10.0.0.3''])"
proof -
  have s: "serving example_pool" using example_pool_built by (rule constructed)
  have a: "addresses example_pool = [''10.0.0.1'', ''10.0.0.2'', ''10.0.0.3'']"
    by (simp add: example_pool_def)
  from C7_next_address_returns [OF s, of example_down] show ?thesis
    unfolding a using s by blast
qed

subsection \<open>Claim C9: when \<^verbatim>\<open>_addr\<close> returns\<close>

lemma pool_state_cases:
  "pool_state self \<Longrightarrow> populated self \<or> (cLock self \<and> addresses self = [])"
proof (induction rule: pool_state.induct)
  case (built env name p self)
  from Circle_init_Inr [OF this] obtain result :: response where "ips result \<noteq> []"
    and s: "self = \<lparr>authority = name, port = p, cLock = False,
                    generator = GenSuspended 1, addresses = ips result\<rparr>" by auto
  then show ?case by (cases "ips result") (simp_all add: populated_def)
next
  case (called self env name res self')
  from called.hyps(2) have l: "\<not> cLock self" by (auto simp: addr_def)
  with called.IH have p: "populated self" by simp
  show ?case
  proof (cases "name = None \<or> name = Some []")
    case True
    then have "addr env name self = next_address env self"
      by (auto simp: next_address_def addr_empty_name)
    with called.hyps(2) have
      "self' = self\<lparr>generator := GenSuspended (Suc (cursor self mod length (addresses self)))\<rparr>"
      unfolding next_address_populated [OF p] by simp
    then show ?thesis using populated_step [OF p] by simp
  next
    case False
    then obtain n where n: "name = Some n" "n \<noteq> []" by auto
    show ?thesis
    proof (cases res)
      case (Inl e)
      from called.hyps(2) n(1) Inl have "addr env (Some n) self = Some (Inl e, self')" by simp
      from addr_named_Inl [OF n(2) this]
      have "self' = self\<lparr>cLock := True, generator := GenFinished, addresses := []\<rparr>" by blast
      then show ?thesis by simp
    next
      case (Inr a)
      from called.hyps(2) n(1) Inr have "addr env (Some n) self = Some (Inr a, self')" by simp
      from addr_named_Inr [OF n(2) this] obtain result :: response where
        "ips result \<noteq> []"
        "self' = self\<lparr>generator := GenSuspended 1, addresses := ips result\<rparr>" by blast
      then show ?thesis using populated_resolved [OF l, of "ips result"] by simp
    qed
  qed
qed

text \<open>
  Claim C9: the call \<^verbatim>\<open>_addr()\<close> returns a value in every state of a pool whose
  cached list is not empty; and when a resolution succeeds with no address (as the
  system resolver path allows, which does not turn an empty success into a
  failure), the generator has nothing to yield and the call that asked for the
  resolution, in the constructor or in a refresh, does not return.
\<close>

theorem C9_termination:
  "(pool_state self \<and> addresses self \<noteq> [] \<longrightarrow>
      (\<exists>a self'. next_address env self = Some (Inr a, self') \<and> a \<in> set (addresses self))) \<and>
   (name \<noteq> [] \<and> query env' name True = Inr result \<and> raised result = [] \<and> ips result = [] \<longrightarrow>
      addr env' (Some name) other = None \<and> Circle_init env' name p = None \<and>
      (authority other = name \<longrightarrow> refresh env' other = None))"
proof (intro conjI impI)
  assume "pool_state self \<and> addresses self \<noteq> []"
  with pool_state_cases [of self] have p: "populated self" by auto
  then have "addresses self \<noteq> []" by (simp add: populated_def)
  then have "addresses self ! (cursor self mod length (addresses self)) \<in> set (addresses self)"
    by simp
  then show "\<exists>a self'. next_address env self = Some (Inr a, self') \<and> a \<in> set (addresses self)"
    using next_address_populated [OF p, of env] by blast
next
  assume a: "name \<noteq> [] \<and> query env' name True = Inr result \<and> raised result = [] \<and> ips result = []"
  have n: "addr env' (Some name) s = None" for s
  proof (cases "cLock s")
    case True
    then show ?thesis by (rule addr_locked)
  next
    case False
    with a show ?thesis by (simp add: addr_named)
  qed
  show "addr env' (Some name) other = None" by (rule n)
  show "Circle_init env' name p = None" by (simp add: Circle_init_def n)
  show "refresh env' other = None" if "authority other = name"
    using that by (simp add: refresh_def n)
qed

theorem C9_termination_witness:
  "pool_state example_pool \<and> addresses example_pool \<noteq> [] \<and>
   (\<exists>a self'. next_address example_up example_pool = Some (Inr a, self')) \<and>
   query example_empty ''hcp.example'' True =
     Inr \<lparr>fqdn = ''hcp.example'', cache = True, ips = [], raised = []\<rparr> \<and>
   Circle_init example_empty ''hcp.example'' 443 = None \<and>
   refresh example_empty example_pool = None"
proof -
  let ?r = "\<lparr>fqdn = ''hcp.example'', cache = True, ips = [], raised = []\<rparr>"
  have s: "pool_state example_pool" using example_pool_built by (rule built)
  have a: "addresses example_pool \<noteq> []" "authority example_pool = ''hcp.example''"
    by (simp_all add: example_pool_def)
  have q: "query example_empty ''hcp.example'' True = Inr ?r"
    by (simp add: query_system example_empty_def)
  have h: "''hcp.example'' \<noteq> [] \<and> query example_empty ''hcp.example'' True = Inr ?r \<and>
           raised ?r = [] \<and> ips ?r = []"
    using q by simp
  from C9_termination [of example_pool example_up "''hcp.example''" example_empty ?r example_pool 443]
  show ?thesis using s a h q by blast
qed

subsection \<open>Claim C10: the port\<close>

lemma port_update_out:
  "self\<lparr>port := p, cLock := b\<rparr> = self\<lparr>cLock := b, port := p\<rparr>"
  "self\<lparr>port := p, generator := g\<rparr> = self\<lparr>generator := g, port := p\<rparr>"
  "self\<lparr>port := p, addresses := xs\<rparr> = self\<lparr>addresses := xs, port := p\<rparr>"
  by (cases self, simp)+

lemma addr_loop_port:
  "addr_loop (self\<lparr>port := p\<rparr>) = map_option (map_prod id (\<lambda>s. s\<lparr>port := p\<rparr>)) (addr_loop self)"
proof (cases "addresses self")
  case Nil
  then show ?thesis by (simp add: addr_loop_Nil)
next
  case (Cons a as)
  then show ?thesis by (simp add: addr_loop_Cons port_update_out)
qed

lemma gen_next_port:
  "gen_next env (self\<lparr>port := p\<rparr>) =
     map_option (map_prod id (\<lambda>s. s\<lparr>port := p\<rparr>)) (gen_next env self)"
proof (cases "generator self")
  case (GenCreated n)
  obtain result where q: "query env n True = Inr result"
    using query_system_returns by blast
  show ?thesis using GenCreated q
    by (simp add: gen_next_def addr_start_def Let_def port_update_out addr_loop_port)
qed (simp_all add: gen_next_def addr_loop_port port_update_out)

lemma addr_port:
  "addr env name (self\<lparr>port := p\<rparr>) =
     map_option (map_prod id (\<lambda>s. s\<lparr>port := p\<rparr>)) (addr env name self)"
proof (cases "cLock self")
  case True
  then show ?thesis by (simp add: addr_locked)
next
  case False
  define s2 where "s2 = (case name of None \<Rightarrow> self\<lparr>cLock := True\<rparr>
     | Some n \<Rightarrow> if n \<noteq> [] then self\<lparr>cLock := True, generator := GenCreated n\<rparr>
                 else self\<lparr>cLock := True\<rparr>)"
  have 1: "addr env name self =
     (case gen_next env s2 of None \<Rightarrow> None
      | Some (Inl e, s3) \<Rightarrow> Some (Inl e, s3)
      | Some (Inr a, s3) \<Rightarrow> Some (Inr a, s3\<lparr>cLock := False\<rparr>))"
    using False by (simp add: addr_def s2_def split: option.splits)
  have 2: "addr env name (self\<lparr>port := p\<rparr>) =
     (case gen_next env (s2\<lparr>port := p\<rparr>) of None \<Rightarrow> None
      | Some (Inl e, s3) \<Rightarrow> Some (Inl e, s3)
      | Some (Inr a, s3) \<Rightarrow> Some (Inr a, s3\<lparr>cLock := False\<rparr>))"
    using False by (simp add: addr_def s2_def port_update_out split: option.splits)
  show ?thesis unfolding 1 2 gen_next_port
    by (auto simp: port_update_out split: option.splits sum.splits)
qed

lemma next_addresses_port:
  "next_addresses env k (self\<lparr>port := p\<rparr>) =
     map_option (map_prod id (\<lambda>s. s\<lparr>port := p\<rparr>)) (next_addresses env k self)"
proof (induction k arbitrary: self)
  case 0
  then show ?case by simp
next
  case (Suc k)
  show ?case
    by (simp add: next_address_def addr_port Suc.IH split: option.splits sum.splits)
qed

text \<open>
  Claim C10: the port given to the constructor has no influence on the resolution
  or on the addresses served. The lookup asks for port 443 whatever the port of
  the pool is, and a pool built or used with another port does the same as the
  first one, step by step, with the same results; the two differ in the stored
  port only.
\<close>

theorem C10_port_irrelevant:
  "Circle_init env name p' =
     map_option (map_sum id (\<lambda>s. s\<lparr>port := p'\<rparr>)) (Circle_init env name p) \<and>
   addr env n (self\<lparr>port := p'\<rparr>) =
     map_option (map_prod id (\<lambda>s. s\<lparr>port := p'\<rparr>)) (addr env n self) \<and>
   refresh env (self\<lparr>port := p'\<rparr>) =
     map_option (map_prod id (\<lambda>s. s\<lparr>port := p'\<rparr>)) (refresh env self) \<and>
   next_addresses env k (self\<lparr>port := p'\<rparr>) =
     map_option (map_prod id (\<lambda>s. s\<lparr>port := p'\<rparr>)) (next_addresses env k self) \<and>
   query (env\<lparr>getaddrinfo := \<lambda>host prt. getaddrinfo env host 443\<rparr>) name c = query env name c"
proof (intro conjI)
  let ?s0 = "\<lparr>authority = name, port = p, cLock = False, generator = GenNone, addresses = []\<rparr>"
  have "\<lparr>authority = name, port = p', cLock = False, generator = GenNone, addresses = []\<rparr> =
          ?s0\<lparr>port := p'\<rparr>" by simp
  then have "Circle_init env name p' =
     (case addr env (Some name) (?s0\<lparr>port := p'\<rparr>) of None \<Rightarrow> None
      | Some (Inl e, _) \<Rightarrow> Some (Inl e) | Some (Inr _, self') \<Rightarrow> Some (Inr self'))"
    by (simp add: Circle_init_def)
  then show "Circle_init env name p' =
     map_option (map_sum id (\<lambda>s. s\<lparr>port := p'\<rparr>)) (Circle_init env name p)"
    unfolding addr_port by (auto simp: Circle_init_def split: option.splits sum.splits)
  show "addr env n (self\<lparr>port := p'\<rparr>) =
     map_option (map_prod id (\<lambda>s. s\<lparr>port := p'\<rparr>)) (addr env n self)"
    by (rule addr_port)
  show "refresh env (self\<lparr>port := p'\<rparr>) =
     map_option (map_prod id (\<lambda>s. s\<lparr>port := p'\<rparr>)) (refresh env self)"
    by (auto simp: refresh_def addr_port split: option.splits sum.splits)
  show "next_addresses env k (self\<lparr>port := p'\<rparr>) =
     map_option (map_prod id (\<lambda>s. s\<lparr>port := p'\<rparr>)) (next_addresses env k self)"
    by (rule next_addresses_port)
  show "query (env\<lparr>getaddrinfo := \<lambda>host prt. getaddrinfo env host 443\<rparr>) name c = query env name c"
    by (simp add: query_def Let_def)
qed

theorem C10_port_irrelevant_witness:
  "Circle_init example_up ''hcp.example'' 8000 = Some (Inr (example_pool\<lparr>port := 8000\<rparr>))"
  using C10_port_irrelevant [of example_up "''hcp.example''" 8000 443]
  by (simp add: example_pool_built)

subsection \<open>Claim C1: the path the pool resolves through\<close>

lemma addr_bypass_irrelevant:
  "addr (env\<lparr>dns_resolver_query := q\<rparr>) name self = addr env name self"
proof -
  have "query (env\<lparr>dns_resolver_query := q\<rparr>) n True = query env n True" for n
    by (simp add: query_system)
  then have "gen_next (env\<lparr>dns_resolver_query := q\<rparr>) s = gen_next env s" for s
    by (simp add: gen_next_def addr_start_def split: gen.splits)
  then show ?thesis by (simp add: addr_def)
qed

text \<open>
  Claim C1 says that construction and refresh resolve the name through the
  bypass path, a direct query to the nameservers. The pool calls
  \<^verbatim>\<open>query(dnsname, cache=True)\<close>, which is the system resolver: where the
  nameservers answer \<^verbatim>\<open>NXDOMAIN\<close> and the system resolver knows three nodes, the
  bypass path fails and yet the pool is built, with the three nodes of the system
  resolver.
\<close>

theorem C1_counterexample:
  "query example_up ''hcp.example'' False =
     Inr \<lparr>fqdn = ''hcp.example'', cache = False, ips = [],
          raised = ''NXDOMAIN - The query name does not exist.''\<rparr> \<and>
   Circle_init example_up ''hcp.example'' 443 =
     Some (Inr \<lparr>authority = ''hcp.example'', port = 443, cLock = False,
                generator = GenSuspended 1,
                addresses = [''10.0.0.1'', ''10.0.0.2'', ''10.0.0.3'']\<rparr>)"
proof -
  have "dns_resolver_query example_up ''hcp.example'' = Inl NXDOMAIN"
    by (simp add: example_up_def)
  from query_bypass_failure [OF this] show ?thesis
    using example_pool_built by (simp add: example_pool_def)
qed

text \<open>
  Claim C1, amended: construction and refresh resolve the name of the pool
  through \<^verbatim>\<open>query\<close> with \<^verbatim>\<open>cache=True\<close>, that is through the system resolver, for
  every non-empty name. What the nameservers would answer on the bypass path has
  no influence on either; the outcome of both is decided by the result of
  \<^verbatim>\<open>query(name, cache=True)\<close>: its failure description is raised as \<^verbatim>\<open>IpsError\<close>, its
  address list becomes the cached list, and with neither the call does not return.
\<close>

theorem C1_pool_uses_system_resolver:
  "Circle_init (env\<lparr>dns_resolver_query := q\<rparr>) name p = Circle_init env name p \<and>
   refresh (env\<lparr>dns_resolver_query := q\<rparr>) self = refresh env self \<and>
   (name \<noteq> [] \<and> query env name True = Inr result \<longrightarrow>
      Circle_init env name p =
        (if raised result \<noteq> [] then Some (Inl (IpsError (raised result)))
         else if ips result = [] then None
         else Some (Inr \<lparr>authority = name, port = p, cLock = False,
                         generator = GenSuspended 1, addresses = ips result\<rparr>))) \<and>
   (\<not> cLock self \<and> authority self \<noteq> [] \<and> query env (authority self) True = Inr result \<longrightarrow>
      refresh env self =
        (if raised result \<noteq> [] then
           Some (Inl (IpsError (raised result)),
                 self\<lparr>cLock := True, generator := GenFinished, addresses := []\<rparr>)
         else if ips result = [] then None
         else Some (Inr (), self\<lparr>generator := GenSuspended 1, addresses := ips result\<rparr>)))"
proof (intro conjI impI)
  show "Circle_init (env\<lparr>dns_resolver_query := q\<rparr>) name p = Circle_init env name p"
    by (simp add: Circle_init_def addr_bypass_irrelevant)
  show "refresh (env\<lparr>dns_resolver_query := q\<rparr>) self = refresh env self"
    by (simp add: refresh_def addr_bypass_irrelevant)
next
  assume "name \<noteq> [] \<and> query env name True = Inr result"
  then show "Circle_init env name p =
        (if raised result \<noteq> [] then Some (Inl (IpsError (raised result)))
         else if ips result = [] then None
         else Some (Inr \<lparr>authority = name, port = p, cLock = False,
                         generator = GenSuspended 1, addresses = ips result\<rparr>))"
    by (simp add: Circle_init_def addr_named split: list.splits)
next
  assume "\<not> cLock self \<and> authority self \<noteq> [] \<and> query env (authority self) True = Inr result"
  then show "refresh env self =
        (if raised result \<noteq> [] then
           Some (Inl (IpsError (raised result)),
                 self\<lparr>cLock := True, generator := GenFinished, addresses := []\<rparr>)
         else if ips result = [] then None
         else Some (Inr (), self\<lparr>generator := GenSuspended 1, addresses := ips result\<rparr>))"
    by (simp add: refresh_def addr_named split: list.splits)
qed

theorem C1_pool_uses_system_resolver_witness:
  "''hcp.example'' \<noteq> [] \<and>
   query example_up ''hcp.example'' True =
     Inr \<lparr>fqdn = ''hcp.example'', cache = True,
          ips = [''10.0.0.1'', ''10.0.0.2'', ''10.0.0.3''], raised = []\<rparr> \<and>
   Circle_init (example_up\<lparr>dns_resolver_query := \<lambda>name. Inl Timeout\<rparr>) ''hcp.example'' 443 =
     Some (Inr \<lparr>authority = ''hcp.example'', port = 443, cLock = False,
                generator = GenSuspended 1,
                addresses = [''10.0.0.1'', ''10.0.0.2'', ''10.0.0.3'']\<rparr>)"
proof -
  let ?r = "\<lparr>fqdn = ''hcp.example'', cache = True,
          ips = [''10.0.0.1'', ''10.0.0.2'', ''10.0.0.3''], raised = []\<rparr>"
  have q: "query example_up ''hcp.example'' True = Inr ?r"
    by (simp add: query_system example_up_def example_addrinfo_def)
  from C1_pool_uses_system_resolver
    [where env = example_up and q = "\<lambda>name. Inl Timeout" and name = "''hcp.example''"
       and p = 443 and self = example_pool and result = ?r]
  show ?thesis using q by simp
qed

subsection \<open>Claim C6: the normalization of the records\<close>

lemma hex_digit_chars: "hex_digit c = Some v \<Longrightarrow> c \<in> set ''0123456789abcdefABCDEF''"
  by (auto simp: hex_digit_def split: if_splits)

lemma hex_digit_plain:
  "hex_digit c = Some v \<Longrightarrow>
     \<not> is_space c \<and> c \<noteq> CHR ''+'' \<and> c \<noteq> CHR ''-'' \<and> c \<noteq> CHR ''_'' \<and>
     c \<noteq> CHR ''x'' \<and> c \<noteq> CHR ''X''"
  by (auto dest!: hex_digit_chars simp: is_space_def)

lemma hex_octet_Some:
  "hex_octet s = Some n \<Longrightarrow>
     \<exists>a b va vb. s = [a, b] \<and> hex_digit a = Some va \<and> hex_digit b = Some vb \<and> n = 16 * va + vb"
  by (auto simp: hex_octet_def split: list.splits option.splits)

lemma py_int16_hex_octet:
  assumes "hex_octet s = Some n"
  shows "py_int16 s = Inr (int n)"
proof -
  from hex_octet_Some [OF assms] obtain a b va vb where
    s: "s = [a, b]" and a: "hex_digit a = Some va" and b: "hex_digit b = Some vb"
    and n: "n = 16 * va + vb" by blast
  from hex_digit_plain [OF a] hex_digit_plain [OF b]
  have st: "strip s = [a, b]" by (simp add: strip_def s)
  from hex_digit_plain [OF a] have sg: "strip_sign [a, b] = (1, [a, b])"
    by (simp add: strip_sign_def)
  from hex_digit_plain [OF b] have pr: "strip_prefix [a, b] = [a, b]"
    by (simp add: strip_prefix_def)
  from hex_digit_plain [OF b] a b have pd: "parse_digits [a, b] = Some (16 * va + vb)"
    by (simp add: parse_digits_def)
  show ?thesis by (simp add: py_int16_def st sg pr pd n)
qed

lemma str_int_nat: "str_int (int n) = str_nat n"
  by (simp add: str_int_def)

lemma normalize_marker:
  assumes "ip ! 1 = CHR ''#''" and "decode_hex_suffix ip = Some d"
  shows "normalize_record ip = Inr d"
proof -
  define hx where "hx = drop (length ip - 8) ip"
  from assms(2) obtain a b c e where
    o: "hex_octet (take 2 hx) = Some a" "hex_octet (take 2 (drop 2 hx)) = Some b"
       "hex_octet (take 2 (drop 4 hx)) = Some c" "hex_octet (take 2 (drop 6 hx)) = Some e"
    and d: "d = dotted_decimal a b c e"
    by (auto simp: decode_hex_suffix_def hx_def Let_def split: option.splits)
  from hex_octet_Some [OF o(4)] obtain x y where xy: "take 2 (drop 6 hx) = [x, y]" by blast
  have "length (take 2 (drop 6 hx)) = length [x, y]" by (simp only: xy)
  then have l8: "8 \<le> length hx" by simp
  have "length hx \<le> 8" by (simp add: hx_def)
  then have t: "take 2 (drop 6 hx) = drop 6 hx" by simp
  from l8 have l: "\<not> length ip < 2" by (simp add: hx_def)
  have p: "py_int16 (take 2 hx) = Inr (int a)" "py_int16 (take 2 (drop 2 hx)) = Inr (int b)"
    "py_int16 (take 2 (drop 4 hx)) = Inr (int c)" "py_int16 (drop 6 hx) = Inr (int e)"
    using o t by (simp_all add: py_int16_hex_octet)
  have "normalize_record ip = Inr (format4 (int a) (int b) (int c) (int e))"
    using l assms(1) p unfolding normalize_record_def hx_def [symmetric] by (simp add: Let_def)
  then show ?thesis
    by (simp add: d format4_def dotted_decimal_def str_int_nat)
qed

lemma decode_C0A80101: "decode_hex_suffix (pre @ ''C0A80101'') = Some ''192.168.1.1''"
proof -
  have h: "drop (length (pre @ ''C0A80101'') - 8) (pre @ ''C0A80101'') = ''C0A80101''"
    by simp
  have o: "hex_octet ''C0'' = Some 192" "hex_octet ''A8'' = Some 168" "hex_octet ''01'' = Some 1"
    by (simp_all add: hex_octet_def hex_digit_def)
  have s: "str_nat 192 = ''192''" "str_nat 168 = ''168''" "str_nat (Suc 0) = ''1''"
    by code_simp+
  show ?thesis
    unfolding decode_hex_suffix_def h by (simp add: o dotted_decimal_def s)
qed

lemma collect_ips_total:
  "list_all2 (\<lambda>i ip. normalize_record i = Inr ip) rrset ys \<Longrightarrow>
     collect_ips acc rrset = Inr (acc @ ys)"
  by (induction rrset ys arbitrary: acc rule: list_all2_induct) simp_all

text \<open>
  Claim C6: on the bypass path, a record whose string form has the type marker
  as its second character has its last eight hexadecimal characters decoded as
  four two-digit hexadecimal octets and rendered as a dotted-decimal string, so
  that the suffix \<^verbatim>\<open>C0A80101\<close> yields \<^verbatim>\<open>192.168.1.1\<close>; every other record is rendered
  as its string form; and every record is normalized so before it is appended.
  The type marker of the code is the character \<^verbatim>\<open>#\<close>. A record of fewer than two
  characters has no second character to look at.
\<close>

theorem C6_normalization:
  "(ip ! 1 = CHR ''#'' \<and> decode_hex_suffix ip = Some d \<longrightarrow> normalize_record ip = Inr d) \<and>
   (2 \<le> length ip \<and> ip ! 1 \<noteq> CHR ''#'' \<longrightarrow> normalize_record ip = Inr ip) \<and>
   normalize_record (c # CHR ''#'' # rest @ ''C0A80101'') = Inr ''192.168.1.1'' \<and>
   (dns_resolver_query env name = Inr rrset \<and>
    list_all2 (\<lambda>i ip'. normalize_record i = Inr ip') rrset ys \<longrightarrow>
      (\<exists>result. query env name False = Inr result \<and> ips result = ys))"
proof (intro conjI impI)
  assume "ip ! 1 = CHR ''#'' \<and> decode_hex_suffix ip = Some d"
  then show "normalize_record ip = Inr d" by (simp add: normalize_marker)
next
  assume "2 \<le> length ip \<and> ip ! 1 \<noteq> CHR ''#''"
  then show "normalize_record ip = Inr ip" by (simp add: normalize_record_def)
next
  have "decode_hex_suffix ((c # CHR ''#'' # rest) @ ''C0A80101'') = Some ''192.168.1.1''"
    by (rule decode_C0A80101)
  then have "decode_hex_suffix (c # CHR ''#'' # rest @ ''C0A80101'') = Some ''192.168.1.1''"
    by simp
  moreover have "(c # CHR ''#'' # rest @ ''C0A80101'') ! 1 = CHR ''#''" by simp
  ultimately show "normalize_record (c # CHR ''#'' # rest @ ''C0A80101'') = Inr ''192.168.1.1''"
    by (rule normalize_marker [rotated])
next
  assume a: "dns_resolver_query env name = Inr rrset \<and>
    list_all2 (\<lambda>i ip'. normalize_record i = Inr ip') rrset ys"
  then have "collect_ips [] rrset = Inr ys" using collect_ips_total [of rrset ys "[]"] by simp
  with a show "\<exists>result. query env name False = Inr result \<and> ips result = ys"
    by (simp add: query_def Let_def)
qed

theorem C6_normalization_witness:
  "query example_generic ''hcp.example'' False =
     Inr \<lparr>fqdn = ''hcp.example'', cache = False, ips = [''192.168.1.1'', ''1.2.3.4''], raised = []\<rparr>"
proof -
  let ?g = "CHR 0x5C # CHR ''#'' # '' 4 '' @ ''C0A80101''"
  have r: "dns_resolver_query example_generic ''hcp.example'' = Inr [?g, ''1.2.3.4'']"
    by (simp add: example_generic_def)
  have 1: "normalize_record ?g = Inr ''192.168.1.1''"
    using C6_normalization [where c = "CHR 0x5C" and rest = "'' 4 ''"] by blast
  have 2: "normalize_record ''1.2.3.4'' = Inr ''1.2.3.4''"
    using C6_normalization [where ip = "''1.2.3.4''"] by simp
  have "list_all2 (\<lambda>i ip'. normalize_record i = Inr ip') [?g, ''1.2.3.4'']
          [''192.168.1.1'', ''1.2.3.4'']"
    using 1 2 by simp
  with r C6_normalization [where env = example_generic and name = "''hcp.example''"
      and rrset = "[?g, ''1.2.3.4'']" and ys = "[''192.168.1.1'', ''1.2.3.4'']"]
  obtain result where q: "query example_generic ''hcp.example'' False = Inr result"
    and i: "ips result = [''192.168.1.1'', ''1.2.3.4'']" by blast
  from q r have "fqdn result = ''hcp.example''" "cache result = False" "raised result = []"
    by (auto simp: query_def Let_def split: sum.splits if_splits)
  with i q show ?thesis by (cases result) simp
qed

end
